theory Spec2Isabelle
  imports Main "HOL-Library.AList"
begin

section \<open>Data model\<close>

text \<open>
  Modelled from the spec: the classes \<open>Label\<close>, \<open>ClassificationLabel\<close> and \<open>ActionLabel\<close> of
  \<open>hmalib.common.classification_models\<close> and \<open>hmalib.common.evaluator_models\<close> are imported by
  \<open>action_evaluator.py\<close> but not defined there. The spec describes a label as an opaque
  comparable tag with string-valued identity, of which equality and set membership are the
  only operations used; it is a string here.
\<close>

type_synonym Label = string

type_synonym ActionLabel = string

text \<open>
  Modelled from the spec: \<open>BankedSignal\<close> and \<open>MatchMessage\<close> of
  \<open>hmalib.common.message_models\<close>. The fields are the ones the spec lists and the ones the
  source reads (\<open>banked_signal.classifications\<close>, \<open>match_message.matching_banked_signals\<close>) or
  passes to the constructors in the debugging blocks at the end of both files.
\<close>

record BankedSignal =
  signal_id :: string
  bank_id :: string
  bank_source :: string
  classifications :: "Label set"

record MatchMessage =
  content_key :: string
  content_hash :: string
  matching_banked_signals :: "BankedSignal list"

text \<open>
  Modelled from the spec: \<open>ActionRule\<close> and \<open>Action\<close> of \<open>hmalib.common.evaluator_models\<close>.
  \<open>ActionRule\<close> is built in the source with the keywords \<open>name\<close>, \<open>action_label\<close>,
  \<open>must_have_labels\<close>, \<open>must_not_have_labels\<close>; \<open>Action\<close> is built in \<open>get_actions\<close> from an
  action label, a priority and a list of superseding action labels. The fields of \<open>Action\<close>
  carry the prefix \<open>a_\<close> where the name is already a field of \<open>ActionRule\<close>.
\<close>

record ActionRule =
  name :: string
  action_label :: ActionLabel
  must_have_labels :: "Label set"
  must_not_have_labels :: "Label set"

record Action =
  a_action_label :: ActionLabel
  priority :: int
  superseded_by :: "ActionLabel list"

section \<open>Rule matcher (\<open>action_evaluator.py\<close>)\<close>

text \<open>
  Python's \<open>s.issubset(t)\<close> tests every element of \<open>s\<close> for membership in \<open>t\<close>;
  \<open>s.isdisjoint(t)\<close> is true when no element of \<open>s\<close> is a member of \<open>t\<close>.
\<close>

definition issubset :: "'a set \<Rightarrow> 'a set \<Rightarrow> bool" where
  "issubset s t = (\<forall>x\<in>s. x \<in> t)"

definition isdisjoint :: "'a set \<Rightarrow> 'a set \<Rightarrow> bool" where
  "isdisjoint s t = (\<forall>x\<in>s. x \<notin> t)"

text \<open>
  \<^verbatim>\<open>
  def action_rule_applies_to_classifications(action_rule, classifications) -> bool:
      return action_rule.must_have_labels.issubset(
          classifications
      ) and action_rule.must_not_have_labels.isdisjoint(classifications)
  \<close>
\<close>

definition action_rule_applies_to_classifications :: "ActionRule \<Rightarrow> Label set \<Rightarrow> bool" where
  "action_rule_applies_to_classifications action_rule cls =
     (issubset (must_have_labels action_rule) cls
      \<and> isdisjoint (must_not_have_labels action_rule) cls)"

text \<open>
  The dictionary \<open>action_label_to_action_rules\<close> is an association list in insertion order,
  as a Python \<open>dict\<close> is: \<open>map_of d k\<close> is the lookup (\<open>None\<close> when \<open>k not in d\<close>), and
  \<open>AList.update k v d\<close> is \<open>d[k] = v\<close>, which replaces the value of a present key in place
  and puts a new key at the end.

  The body of the inner loop of \<open>get_actions_to_take\<close>:
  \<^verbatim>\<open>
  if action_rule_applies_to_classifications(action_rule, banked_signal.classifications):
      if action_rule.action_label in action_label_to_action_rules:
          action_label_to_action_rules[action_rule.action_label].append(action_rule)
      else:
          action_label_to_action_rules[action_rule.action_label] = [action_rule]
  \<close>
\<close>

definition evaluate_pair ::
  "(ActionLabel \<times> ActionRule list) list \<Rightarrow> Label set \<Rightarrow> ActionRule
     \<Rightarrow> (ActionLabel \<times> ActionRule list) list" where
  "evaluate_pair d cls action_rule =
     (if action_rule_applies_to_classifications action_rule cls then
        (case map_of d (action_label action_rule) of
           Some rs \<Rightarrow> AList.update (action_label action_rule) (rs @ [action_rule]) d
         | None \<Rightarrow> AList.update (action_label action_rule) [action_rule] d)
      else d)"

text \<open>\<open>for action_rule in action_rules: ...\<close>, for one banked signal's classifications.\<close>

fun for_action_rules ::
  "(ActionLabel \<times> ActionRule list) list \<Rightarrow> Label set \<Rightarrow> ActionRule list
     \<Rightarrow> (ActionLabel \<times> ActionRule list) list" where
  "for_action_rules d cls [] = d"
| "for_action_rules d cls (action_rule # rest) =
     for_action_rules (evaluate_pair d cls action_rule) cls rest"

text \<open>\<open>for banked_signal in match_message.matching_banked_signals: ...\<close>\<close>

fun for_banked_signals ::
  "(ActionLabel \<times> ActionRule list) list \<Rightarrow> BankedSignal list \<Rightarrow> ActionRule list
     \<Rightarrow> (ActionLabel \<times> ActionRule list) list" where
  "for_banked_signals d [] action_rules = d"
| "for_banked_signals d (banked_signal # rest) action_rules =
     for_banked_signals
       (for_action_rules d (classifications banked_signal) action_rules) rest action_rules"

text \<open>
  \<^verbatim>\<open>
  def get_actions() -> t.List[Action]:
      return [Action(ActionLabel("EnqueueForReview"), 1,
                     [ActionLabel("A_MORE_IMPORTANT_ACTION")])]
  \<close>
\<close>

definition get_actions :: "Action list" where
  "get_actions =
     [\<lparr>a_action_label = ''EnqueueForReview'', priority = 1,
       superseded_by = [''A_MORE_IMPORTANT_ACTION'']\<rparr>]"

text \<open>
  \<^verbatim>\<open>
  def remove_superseded_actions(action_label_to_action_rules):
      """TODO implement ..."""
      return action_label_to_action_rules
  \<close>
  The function takes the triggered map only; it does not call \<open>get_actions\<close>.
\<close>

definition remove_superseded_actions ::
  "(ActionLabel \<times> ActionRule list) list \<Rightarrow> (ActionLabel \<times> ActionRule list) list" where
  "remove_superseded_actions action_label_to_action_rules = action_label_to_action_rules"

text \<open>
  \<open>get_actions_to_take\<close> starts from \<open>dict()\<close>, runs the two loops and passes the result
  through \<open>remove_superseded_actions\<close>.
\<close>

definition get_actions_to_take ::
  "MatchMessage \<Rightarrow> ActionRule list \<Rightarrow> (ActionLabel \<times> ActionRule list) list" where
  "get_actions_to_take match_message action_rules =
     remove_superseded_actions
       (for_banked_signals [] (matching_banked_signals match_message) action_rules)"

text \<open>
  Reading a dictionary of rule lists at a label, with the empty list for an absent key:
  the rules recorded under the label.
\<close>

definition rules_under :: "(ActionLabel \<times> ActionRule list) list \<Rightarrow> ActionLabel \<Rightarrow> ActionRule list" where
  "rules_under d l = (case map_of d l of None \<Rightarrow> [] | Some rs \<Rightarrow> rs)"

text \<open>
  The rules that fire for a label on a list of signals, pair by pair: signals in their
  order, and for each signal the rules in their order.
\<close>

definition fired :: "ActionLabel \<Rightarrow> BankedSignal list \<Rightarrow> ActionRule list \<Rightarrow> ActionRule list" where
  "fired l signals action_rules =
     concat (map (\<lambda>s. filter (\<lambda>r. action_label r = l
                \<and> action_rule_applies_to_classifications r (classifications s)) action_rules)
              signals)"

section \<open>The evaluation on a store of list objects\<close>

text \<open>
  \<open>get_actions_to_take\<close> works on mutable objects: it reads the list \<open>action_rules\<close> that
  its caller owns, creates a list with \<open>[action_rule]\<close> and mutates such a list with
  \<open>append\<close>. To follow two evaluations one after the other, the lists of rules live in a
  store: a heap is the list of the list objects allocated so far, an address is an index
  into it, a new object takes the next index, and the dictionary maps an action label to
  the address of its list. The match message, its signals and the rules are values: the
  function assigns to none of their fields and stores into no list of signals.
\<close>

type_synonym addr = nat

type_synonym heap = "ActionRule list list"

text \<open>
  The body of the inner loop on the store. \<open>d[label].append(rule)\<close> changes the object at
  the address that the dictionary holds for the label; \<open>d[label] = [rule]\<close> allocates a new
  object. An address outside the heap is no object, and the step has no result there.
\<close>

definition evaluate_pair_in_heap ::
  "(ActionLabel \<times> addr) list \<times> heap \<Rightarrow> Label set \<Rightarrow> ActionRule
     \<Rightarrow> ((ActionLabel \<times> addr) list \<times> heap) option" where
  "evaluate_pair_in_heap s cls action_rule =
     (case s of (d, h) \<Rightarrow>
        if action_rule_applies_to_classifications action_rule cls then
          (case map_of d (action_label action_rule) of
             Some p \<Rightarrow>
               if p < length h then Some (d, h[p := h ! p @ [action_rule]]) else None
           | None \<Rightarrow>
               Some (AList.update (action_label action_rule) (length h) d, h @ [[action_rule]]))
        else Some (d, h))"

text \<open>
  \<open>for action_rule in action_rules\<close>, where \<open>action_rules\<close> is the object at address \<open>a\<close>. A
  Python list iterator keeps an index and reads the list as it is at each step, so the
  loop follows every change that its body makes to that object, and need not end when the
  body appends to it.
\<close>

partial_function (option) for_action_rules_in_heap ::
  "nat \<Rightarrow> addr \<Rightarrow> Label set \<Rightarrow> (ActionLabel \<times> addr) list \<times> heap
     \<Rightarrow> ((ActionLabel \<times> addr) list \<times> heap) option" where
  "for_action_rules_in_heap i a cls s =
     (if a < length (snd s) then
        (if i < length (snd s ! a) then
           Option.bind (evaluate_pair_in_heap s cls (snd s ! a ! i))
             (for_action_rules_in_heap (Suc i) a cls)
         else Some s)
      else None)"

text \<open>
  \<open>for banked_signal in match_message.matching_banked_signals\<close>, on the store.
\<close>

fun for_banked_signals_in_heap ::
  "BankedSignal list \<Rightarrow> addr \<Rightarrow> (ActionLabel \<times> addr) list \<times> heap
     \<Rightarrow> ((ActionLabel \<times> addr) list \<times> heap) option" where
  "for_banked_signals_in_heap [] a s = Some s"
| "for_banked_signals_in_heap (banked_signal # rest) a s =
     Option.bind (for_action_rules_in_heap 0 a (classifications banked_signal) s)
       (for_banked_signals_in_heap rest a)"

text \<open>
  \<open>remove_superseded_actions\<close> returns the dictionary object that it is given, here the
  dictionary of addresses.
\<close>

definition remove_superseded_actions_in_heap ::
  "(ActionLabel \<times> addr) list \<Rightarrow> (ActionLabel \<times> addr) list" where
  "remove_superseded_actions_in_heap action_label_to_action_rules = action_label_to_action_rules"

text \<open>
  \<open>get_actions_to_take(match_message, action_rules)\<close> with \<open>action_rules\<close> the object at
  address \<open>a\<close> of the heap \<open>h\<close>: it starts from a new, empty dictionary and returns the
  dictionary and the heap that the evaluation leaves.
\<close>

definition get_actions_to_take_in_heap ::
  "MatchMessage \<Rightarrow> addr \<Rightarrow> heap \<Rightarrow> ((ActionLabel \<times> addr) list \<times> heap) option" where
  "get_actions_to_take_in_heap match_message a h =
     (case for_banked_signals_in_heap (matching_banked_signals match_message) a ([], h) of
        None \<Rightarrow> None
      | Some (d, h') \<Rightarrow> Some (remove_superseded_actions_in_heap d, h'))"

text \<open>
  What a dictionary of addresses shows to a reader in a heap: the action-label-to-rules
  map, with each address replaced by the list found there.
\<close>

fun dict_contents ::
  "(ActionLabel \<times> addr) list \<Rightarrow> heap \<Rightarrow> (ActionLabel \<times> ActionRule list) list option" where
  "dict_contents [] h = Some []"
| "dict_contents ((l, p) # d) h =
     (if p < length h
      then (case dict_contents d h of None \<Rightarrow> None | Some rest \<Rightarrow> Some ((l, h ! p) # rest))
      else None)"

text \<open>
  For the proofs: the same reading without the bounds check, and the condition under
  which the loops run, that the addresses of the dictionary are distinct objects allocated
  at or after index \<open>n\<close>.
\<close>

definition cells :: "(ActionLabel \<times> addr) list \<Rightarrow> heap \<Rightarrow> (ActionLabel \<times> ActionRule list) list" where
  "cells d h = map (\<lambda>(l, p). (l, h ! p)) d"

definition fresh_from :: "nat \<Rightarrow> (ActionLabel \<times> addr) list \<Rightarrow> heap \<Rightarrow> bool" where
  "fresh_from n d h =
     (n \<le> length h \<and> distinct (map snd d) \<and> list_all (\<lambda>p. n \<le> p \<and> p < length h) (map snd d))"

section \<open>Notification handler (\<open>action_evaluator.py\<close>)\<close>

text \<open>
  The exceptions that the modelled code can raise: \<open>json.loads\<close> raises \<open>JSONDecodeError\<close>
  on a body that is not JSON, a dictionary raises \<open>KeyError\<close> on an absent key, a call with
  a keyword that the callee does not declare raises \<open>TypeError\<close>, \<open>requests\<close> raises
  \<open>ConnectionError\<close> when the network fails, and a \<open>boto3\<close> client raises \<open>ClientError\<close>
  when the service refuses or cannot be reached.
\<close>

datatype error = JSONDecodeError | KeyError | TypeError | ConnectionError | ClientError

text \<open>
  Modelled from the spec: \<open>ActionMessage\<close> and \<open>ReactionMessage\<close> of
  \<open>hmalib.common.message_models\<close>, with the fields of the spec's outbound interface. The
  prefixes \<open>am_\<close> and \<open>rm_\<close> keep the field names apart from those of \<open>ActionRule\<close>.
\<close>

record ActionMessage =
  am_match_message :: MatchMessage
  am_action_label :: ActionLabel
  am_action_rules :: "ActionRule list"

record ReactionMessage =
  rm_match_message :: MatchMessage
  rm_reaction_label :: Label

definition from_match_message_action_label_and_action_rules ::
  "MatchMessage \<Rightarrow> ActionLabel \<Rightarrow> ActionRule list \<Rightarrow> ActionMessage" where
  "from_match_message_action_label_and_action_rules match_message l action_rules =
     \<lparr>am_match_message = match_message, am_action_label = l, am_action_rules = action_rules\<rparr>"

definition from_match_message_and_label :: "MatchMessage \<Rightarrow> Label \<Rightarrow> ReactionMessage" where
  "from_match_message_and_label match_message l =
     \<lparr>rm_match_message = match_message, rm_reaction_label = l\<rparr>"

text \<open>
  The arguments of one call of \<open>config.sqs_client.send_message(QueueUrl=..., MessageBody=...)\<close>.
  The body is the message that \<open>to_aws_json\<close> serialises; the JSON text itself is not
  modelled. The queue is the list of the calls that were accepted so far.
\<close>

datatype outbound = ActionBody ActionMessage | ReactionBody ReactionMessage

record send_message =
  QueueUrl :: string
  MessageBody :: outbound

record ActionEvaluatorConfig =
  actions_queue_url :: string
  reactions_queue_url :: string

text \<open>An SQS record of the event, with the one field the handler reads.\<close>

record sqs_record =
  body :: string

record event =
  Records :: "sqs_record list"

text \<open>
  What the handler takes from outside the two source files, each with its way to fail:
  \<^item> \<open>decode\<close>: the decoding of a record body (\<open>json.loads(sqs_record["body"])\<close>, then
    \<open>["Message"]\<close>, then \<open>MatchMessage.from_aws_json\<close>), which raises on a malformed body;
  \<^item> \<open>ActionEvaluatorConfig_get\<close>: what \<open>ActionEvaluatorConfig.get()\<close> does, which reads
    \<open>os.environ\<close> and the configuration table and raises when either is missing;
  \<^item> \<open>ActionRule_get_all\<close>: what \<open>ActionRule.get_all()\<close> does, which reads the rules from the
    configuration store and raises when the store cannot be read;
  \<^item> \<open>sqs_client_send_message\<close>: what \<open>sqs_client.send_message\<close> does with a call, \<open>None\<close>
    when the queue accepts the message and \<open>Some e\<close> when the call raises \<open>e\<close>.
\<close>

record environment =
  decode :: "string \<Rightarrow> error + MatchMessage"
  ActionEvaluatorConfig_get :: "error + ActionEvaluatorConfig"
  ActionRule_get_all :: "error + ActionRule list"
  sqs_client_send_message :: "send_message \<Rightarrow> error option"

definition get_action_rules :: "environment \<Rightarrow> error + ActionRule list" where
  "get_action_rules env = ActionRule_get_all env"

definition threat_exchange_reacting_is_enabled :: "MatchMessage \<Rightarrow> bool" where
  "threat_exchange_reacting_is_enabled match_message = True"

definition get_threat_exchange_reaction_labels :: "MatchMessage \<Rightarrow> ActionLabel list \<Rightarrow> Label list" where
  "get_threat_exchange_reaction_labels match_message action_labels = [''SAW_THIS_TOO'']"

text \<open>
  \<^verbatim>\<open>
  for action_label in action_labels:
      action_message = ActionMessage.from_match_message_action_label_and_action_rules(
          match_message, action_label, action_label_to_action_rules[action_label])
      config.sqs_client.send_message(
          QueueUrl=config.actions_queue_url, MessageBody=action_message.to_aws_json())
  \<close>
  The subscript raises \<open>KeyError\<close> on an absent label, and \<open>send_message\<close> can raise; either
  exception leaves the loop, and the messages already sent stay sent.
\<close>

fun send_action_messages ::
  "environment \<Rightarrow> ActionEvaluatorConfig \<Rightarrow> MatchMessage
     \<Rightarrow> (ActionLabel \<times> ActionRule list) list
     \<Rightarrow> ActionLabel list \<Rightarrow> send_message list \<Rightarrow> send_message list \<times> (error + unit)" where
  "send_action_messages env cfg match_message d [] sent = (sent, Inr ())"
| "send_action_messages env cfg match_message d (l # rest) sent =
     (case map_of d l of
        None \<Rightarrow> (sent, Inl KeyError)
      | Some rs \<Rightarrow>
          (let m = \<lparr>QueueUrl = actions_queue_url cfg,
                    MessageBody = ActionBody
                      (from_match_message_action_label_and_action_rules match_message l rs)\<rparr>
           in case sqs_client_send_message env m of
                Some e \<Rightarrow> (sent, Inl e)
              | None \<Rightarrow> send_action_messages env cfg match_message d rest (sent @ [m])))"

text \<open>
  \<^verbatim>\<open>
  for threat_exchange_reaction_label in threat_exchange_reaction_labels:
      threat_exchange_reaction_message = ReactionMessage.from_match_message_and_label(
          match_message, threat_exchange_reaction_label)
      config.sqs_client.send_message(
          QueueUrl=config.reactions_queue_url,
          MessageBody=threat_exchange_reaction_message.to_aws_json())
  \<close>
\<close>

fun send_reaction_messages ::
  "environment \<Rightarrow> ActionEvaluatorConfig \<Rightarrow> MatchMessage \<Rightarrow> Label list \<Rightarrow> send_message list
     \<Rightarrow> send_message list \<times> (error + unit)" where
  "send_reaction_messages env cfg match_message [] sent = (sent, Inr ())"
| "send_reaction_messages env cfg match_message (l # rest) sent =
     (let m = \<lparr>QueueUrl = reactions_queue_url cfg,
               MessageBody = ReactionBody (from_match_message_and_label match_message l)\<rparr>
      in case sqs_client_send_message env m of
           Some e \<Rightarrow> (sent, Inl e)
         | None \<Rightarrow> send_reaction_messages env cfg match_message rest (sent @ [m]))"

text \<open>
  The body of \<open>for sqs_record in event["Records"]\<close>. There is no \<open>try\<close> in the handler: an
  exception raised while a record is decoded, while the rules are read or while a message
  is sent leaves the loop and the handler.
\<close>

definition process_record ::
  "environment \<Rightarrow> ActionEvaluatorConfig \<Rightarrow> sqs_record \<Rightarrow> send_message list
     \<Rightarrow> send_message list \<times> (error + unit)" where
  "process_record env cfg r sent =
     (case decode env (body r) of
        Inl e \<Rightarrow> (sent, Inl e)
      | Inr match_message \<Rightarrow>
          (case get_action_rules env of
             Inl e \<Rightarrow> (sent, Inl e)
           | Inr action_rules \<Rightarrow>
               (let action_label_to_action_rules =
                      get_actions_to_take match_message action_rules;
                    action_labels = map fst action_label_to_action_rules
                in case send_action_messages env cfg match_message
                          action_label_to_action_rules action_labels sent of
                     (sent1, Inl e) \<Rightarrow> (sent1, Inl e)
                   | (sent1, Inr u) \<Rightarrow>
                       (if threat_exchange_reacting_is_enabled match_message then
                          (let ls = get_threat_exchange_reaction_labels match_message
                                      action_labels
                           in if ls \<noteq> []
                              then send_reaction_messages env cfg match_message ls sent1
                              else (sent1, Inr ()))
                        else (sent1, Inr ())))))"

fun for_records ::
  "environment \<Rightarrow> ActionEvaluatorConfig \<Rightarrow> sqs_record list \<Rightarrow> send_message list
     \<Rightarrow> send_message list \<times> (error + unit)" where
  "for_records env cfg [] sent = (sent, Inr ())"
| "for_records env cfg (r # rest) sent =
     (case process_record env cfg r sent of
        (sent1, Inl e) \<Rightarrow> (sent1, Inl e)
      | (sent1, Inr u) \<Rightarrow> for_records env cfg rest sent1)"

text \<open>
  \<open>lambda_handler\<close> first calls \<open>ActionEvaluatorConfig.get()\<close>, then runs the loop. It returns
  the messages sent to the queues together with either the exception that left the
  handler or the dictionary \<open>{"evaluation_completed": "true"}\<close>.
\<close>

definition lambda_handler ::
  "environment \<Rightarrow> event \<Rightarrow> send_message list \<times> (error + (string \<times> string) list)" where
  "lambda_handler env ev =
     (case ActionEvaluatorConfig_get env of
        Inl e \<Rightarrow> ([], Inl e)
      | Inr cfg \<Rightarrow>
          (case for_records env cfg (Records ev) [] of
             (sent, Inl e) \<Rightarrow> (sent, Inl e)
           | (sent, Inr u) \<Rightarrow> (sent, Inr [(''evaluation_completed'', ''true'')])))"

text \<open>
  The messages that the handler sends for one decoded match message under a configuration
  and a list of rules: one action message per entry of the evaluated dictionary, in its
  order, then the reaction message.
\<close>

definition messages_of ::
  "ActionEvaluatorConfig \<Rightarrow> ActionRule list \<Rightarrow> MatchMessage \<Rightarrow> send_message list" where
  "messages_of cfg action_rules mm =
     map (\<lambda>(l, rs). \<lparr>QueueUrl = actions_queue_url cfg,
            MessageBody = ActionBody \<lparr>am_match_message = mm, am_action_label = l,
              am_action_rules = rs\<rparr>\<rparr>)
       (get_actions_to_take mm action_rules)
     @ [\<lparr>QueueUrl = reactions_queue_url cfg,
         MessageBody = ReactionBody \<lparr>rm_match_message = mm,
           rm_reaction_label = ''SAW_THIS_TOO''\<rparr>\<rparr>]"

section \<open>Action performers (\<open>actioner_models.py\<close>)\<close>

text \<open>
  The four classes that \<open>ActionPerformer.get_subtype_classes\<close> lists, each with the fields
  \<open>name\<close> and \<open>url\<close>. The two base classes, whose methods raise \<open>NotImplementedError\<close>, are
  not among the configurable performers.
\<close>

datatype ActionPerformer =
    WebhookPostActionPerformer string string
  | WebhookGetActionPerformer string string
  | WebhookPutActionPerformer string string
  | WebhookDeleteActionPerformer string string

datatype http_method = GET | POST | PUT | DELETE

record http_request =
  http_method :: http_method
  http_url :: string
  http_data :: "string option"

record Response =
  status_code :: int

text \<open>
  The name of the parameter that each class's \<open>call\<close> declares after \<open>self\<close>:
  \<open>def call(self, data: str)\<close> in the POST and PUT classes, \<open>def call(self, _data: str)\<close> in
  the GET and DELETE classes.
\<close>

fun call_parameter :: "ActionPerformer \<Rightarrow> string" where
  "call_parameter (WebhookPostActionPerformer n u) = ''data''"
| "call_parameter (WebhookGetActionPerformer n u) = ''_data''"
| "call_parameter (WebhookPutActionPerformer n u) = ''data''"
| "call_parameter (WebhookDeleteActionPerformer n u) = ''_data''"

text \<open>
  The request that the body of each \<open>call\<close> makes with its argument: \<open>post(self.url, data)\<close>,
  \<open>get(self.url)\<close>, \<open>put(self.url, data)\<close>, \<open>delete(self.url)\<close>.
\<close>

fun call_request :: "ActionPerformer \<Rightarrow> string \<Rightarrow> http_request" where
  "call_request (WebhookPostActionPerformer n u) d =
     \<lparr>http_method = POST, http_url = u, http_data = Some d\<rparr>"
| "call_request (WebhookGetActionPerformer n u) d =
     \<lparr>http_method = GET, http_url = u, http_data = None\<rparr>"
| "call_request (WebhookPutActionPerformer n u) d =
     \<lparr>http_method = PUT, http_url = u, http_data = Some d\<rparr>"
| "call_request (WebhookDeleteActionPerformer n u) d =
     \<lparr>http_method = DELETE, http_url = u, http_data = None\<rparr>"

text \<open>
  \<open>self.call(keyword=value)\<close>. Python binds a keyword argument to the parameter of that
  name and raises \<open>TypeError\<close> before the body runs when the callee declares no such
  parameter. The network is a function from the request to what \<open>requests\<close> does with it:
  it raises, or it returns a response of some status (\<open>requests\<close> does not raise on a
  status). The result is the list of requests made and the outcome.
\<close>

definition call ::
  "(http_request \<Rightarrow> error + Response) \<Rightarrow> ActionPerformer \<Rightarrow> string \<Rightarrow> string
     \<Rightarrow> http_request list \<times> (error + Response)" where
  "call http p keyword v =
     (if keyword \<noteq> call_parameter p then ([], Inl TypeError)
      else ([call_request p v], http (call_request p v)))"

text \<open>
  \<^verbatim>\<open>
  def perform_action(self, match_message: MatchMessage) -> None:
      self.call(data=json.dumps(match_message.to_aws()))
  \<close>
  \<open>to_aws_json\<close> stands for \<open>json.dumps(match_message.to_aws())\<close>, which is outside the two
  source files. The response of \<open>call\<close> is dropped and \<open>None\<close> is returned.
\<close>

definition perform_action ::
  "(MatchMessage \<Rightarrow> string) \<Rightarrow> (http_request \<Rightarrow> error + Response) \<Rightarrow> ActionPerformer
     \<Rightarrow> MatchMessage \<Rightarrow> http_request list \<times> (error + unit)" where
  "perform_action to_aws_json http p match_message =
     (case call http p ''data'' (to_aws_json match_message) of
        (requests, Inl e) \<Rightarrow> (requests, Inl e)
      | (requests, Inr response) \<Rightarrow> (requests, Inr ()))"

section \<open>Example data\<close>

text \<open>The rule and the two signals of the spec's first testable property.\<close>

definition rule_C1_not_C3 :: ActionRule where
  "rule_C1_not_C3 =
     \<lparr>name = ''r'', action_label = ''A'', must_have_labels = {''C1''},
      must_not_have_labels = {''C3''}\<rparr>"

definition signal_C1_C2 :: BankedSignal where
  "signal_C1_C2 =
     \<lparr>signal_id = ''1'', bank_id = ''b'', bank_source = ''te'',
      classifications = {''C1'', ''C2''}\<rparr>"

definition signal_C1_only :: BankedSignal where
  "signal_C1_only =
     \<lparr>signal_id = ''2'', bank_id = ''b'', bank_source = ''te'', classifications = {''C1''}\<rparr>"

definition signal_C1_C3 :: BankedSignal where
  "signal_C1_C3 =
     \<lparr>signal_id = ''3'', bank_id = ''b'', bank_source = ''te'',
      classifications = {''C1'', ''C3''}\<rparr>"

definition message_of_two_matches :: MatchMessage where
  "message_of_two_matches =
     \<lparr>content_key = ''key'', content_hash = ''hash'',
      matching_banked_signals = [signal_C1_C2, signal_C1_C3, signal_C1_only]\<rparr>"

text \<open>A rule for a second action label, and a triggered map holding both labels.\<close>

definition rule_for_B :: ActionRule where
  "rule_for_B =
     \<lparr>name = ''s'', action_label = ''B'', must_have_labels = {''C1''},
      must_not_have_labels = {}\<rparr>"

definition triggered_A_and_B :: "(ActionLabel \<times> ActionRule list) list" where
  "triggered_A_and_B = [(''A'', [rule_C1_not_C3]), (''B'', [rule_for_B])]"

text \<open>
  A decoder that knows two bodies and raises on every other one, a configuration, a queue
  that accepts every message, and a batch of three records of which the second is
  malformed.
\<close>

definition message_one :: MatchMessage where
  "message_one =
     \<lparr>content_key = ''k1'', content_hash = ''h1'', matching_banked_signals = [signal_C1_C2]\<rparr>"

definition message_three :: MatchMessage where
  "message_three =
     \<lparr>content_key = ''k3'', content_hash = ''h3'', matching_banked_signals = [signal_C1_only]\<rparr>"

definition decode_example :: "string \<Rightarrow> error + MatchMessage" where
  "decode_example b =
     (if b = ''one'' then Inr message_one
      else if b = ''three'' then Inr message_three
      else Inl JSONDecodeError)"

definition config_example :: ActionEvaluatorConfig where
  "config_example = \<lparr>actions_queue_url = ''actions'', reactions_queue_url = ''reactions''\<rparr>"

definition queue_accepts :: "send_message \<Rightarrow> error option" where
  "queue_accepts m = None"

definition environment_example :: environment where
  "environment_example =
     \<lparr>decode = decode_example,
      ActionEvaluatorConfig_get = Inr config_example,
      ActionRule_get_all = Inr [rule_C1_not_C3],
      sqs_client_send_message = queue_accepts\<rparr>"

definition batch_of_three :: event where
  "batch_of_three = \<lparr>Records = [\<lparr>body = ''one''\<rparr>, \<lparr>body = ''{''\<rparr>, \<lparr>body = ''three''\<rparr>]\<rparr>"

text \<open>A stand-in serialisation, and networks that answer every request the same way.\<close>

definition to_aws_json_example :: "MatchMessage \<Rightarrow> string" where
  "to_aws_json_example match_message = content_key match_message @ '':'' @ content_hash match_message"

definition http_status :: "int \<Rightarrow> http_request \<Rightarrow> error + Response" where
  "http_status c request = Inr \<lparr>status_code = c\<rparr>"

definition http_down :: "http_request \<Rightarrow> error + Response" where
  "http_down request = Inl ConnectionError"

section \<open>Properties of the rule matcher\<close>

lemma issubset_iff: "issubset s t \<longleftrightarrow> s \<subseteq> t"
  by (auto simp: issubset_def)

lemma isdisjoint_iff: "isdisjoint s t \<longleftrightarrow> s \<inter> t = {}"
  by (auto simp: isdisjoint_def)

text \<open>
  Claim C1. For every action rule and every set of classification labels,
  \<open>action_rule_applies_to_classifications\<close> returns True exactly when the rule's
  \<open>must_have_labels\<close> are a subset of the classifications and its \<open>must_not_have_labels\<close>
  are disjoint from them.
\<close>

theorem applies_iff_subset_and_disjoint:
  "action_rule_applies_to_classifications r cls
     \<longleftrightarrow> must_have_labels r \<subseteq> cls \<and> must_not_have_labels r \<inter> cls = {}"
  by (simp add: action_rule_applies_to_classifications_def issubset_iff isdisjoint_iff)

text \<open>
  The spec's example for C1: with \<open>must_have = {C1}\<close> and \<open>must_not_have = {C3}\<close>, the
  classifications \<open>{C1, C2}\<close> match and \<open>{C1, C3}\<close> do not.
\<close>

theorem applies_iff_subset_and_disjoint_witness:
  "action_rule_applies_to_classifications
     \<lparr>name = ''r'', action_label = ''A'', must_have_labels = {''C1''},
      must_not_have_labels = {''C3''}\<rparr> {''C1'', ''C2''}
   \<and> \<not> action_rule_applies_to_classifications
     \<lparr>name = ''r'', action_label = ''A'', must_have_labels = {''C1''},
      must_not_have_labels = {''C3''}\<rparr> {''C1'', ''C3''}"
  using applies_iff_subset_and_disjoint
    [of "\<lparr>name = ''r'', action_label = ''A'', must_have_labels = {''C1''},
          must_not_have_labels = {''C3''}\<rparr>" "{''C1'', ''C2''}"]
    applies_iff_subset_and_disjoint
    [of "\<lparr>name = ''r'', action_label = ''A'', must_have_labels = {''C1''},
          must_not_have_labels = {''C3''}\<rparr>" "{''C1'', ''C3''}"]
  by simp

text \<open>
  Claim C6. A rule whose \<open>must_have_labels\<close> and \<open>must_not_have_labels\<close> have a label in
  common applies to no set of classification labels: a contradictory rule never fires.
\<close>

theorem overlapping_rule_never_applies:
  assumes "must_have_labels r \<inter> must_not_have_labels r \<noteq> {}"
  shows "\<not> action_rule_applies_to_classifications r cls"
proof
  assume fires: "action_rule_applies_to_classifications r cls"
  from assms obtain x where x: "x \<in> must_have_labels r" "x \<in> must_not_have_labels r"
    by blast
  from fires x(1) have "x \<in> cls"
    by (simp add: action_rule_applies_to_classifications_def issubset_def)
  moreover from fires x(2) have "x \<notin> cls"
    by (simp add: action_rule_applies_to_classifications_def isdisjoint_def)
  ultimately show False by simp
qed

theorem overlapping_rule_never_applies_witness:
  "must_have_labels \<lparr>name = ''r'', action_label = ''A'', must_have_labels = {''C1'', ''C2''},
      must_not_have_labels = {''C2''}\<rparr>
     \<inter> must_not_have_labels \<lparr>name = ''r'', action_label = ''A'',
      must_have_labels = {''C1'', ''C2''}, must_not_have_labels = {''C2''}\<rparr> \<noteq> {}
   \<and> \<not> action_rule_applies_to_classifications
     \<lparr>name = ''r'', action_label = ''A'', must_have_labels = {''C1'', ''C2''},
      must_not_have_labels = {''C2''}\<rparr> {''C1'', ''C2''}"
proof -
  have h: "must_have_labels \<lparr>name = ''r'', action_label = ''A'',
      must_have_labels = {''C1'', ''C2''}, must_not_have_labels = {''C2''}\<rparr>
     \<inter> must_not_have_labels \<lparr>name = ''r'', action_label = ''A'',
      must_have_labels = {''C1'', ''C2''}, must_not_have_labels = {''C2''}\<rparr> \<noteq> {}"
    by simp
  show ?thesis
    using h overlapping_rule_never_applies [OF h, of "{''C1'', ''C2''}"] by simp
qed

section \<open>What the two loops of \<open>get_actions_to_take\<close> compute\<close>

lemma map_of_evaluate_pair:
  "map_of (evaluate_pair d cls r) l =
     (if action_label r = l \<and> action_rule_applies_to_classifications r cls
      then Some (rules_under d l @ [r]) else map_of d l)"
  by (auto simp: evaluate_pair_def rules_under_def update_conv' split: option.splits)

lemma rules_under_Some: "map_of d l = Some rs \<Longrightarrow> rules_under d l = rs"
  by (simp add: rules_under_def)

lemma rules_under_evaluate_pair:
  "rules_under (evaluate_pair d cls r) l =
     rules_under d l
       @ (if action_label r = l \<and> action_rule_applies_to_classifications r cls then [r] else [])"
  by (simp add: rules_under_def [of "evaluate_pair d cls r"] map_of_evaluate_pair)
     (simp add: rules_under_def)

lemma map_of_for_action_rules:
  "map_of (for_action_rules d cls rules) l =
     (if filter (\<lambda>r. action_label r = l \<and> action_rule_applies_to_classifications r cls) rules = []
      then map_of d l
      else Some (rules_under d l
             @ filter (\<lambda>r. action_label r = l \<and> action_rule_applies_to_classifications r cls) rules))"
proof (induction rules arbitrary: d)
  case Nil
  show ?case by simp
next
  case (Cons r rules)
  show ?case
    by (simp add: Cons.IH map_of_evaluate_pair rules_under_evaluate_pair)
qed

lemma rules_under_for_action_rules:
  "rules_under (for_action_rules d cls rules) l =
     rules_under d l
       @ filter (\<lambda>r. action_label r = l \<and> action_rule_applies_to_classifications r cls) rules"
  by (induction rules arbitrary: d) (simp_all add: rules_under_evaluate_pair)

lemma fired_Cons:
  "fired l (s # signals) rules =
     filter (\<lambda>r. action_label r = l
        \<and> action_rule_applies_to_classifications r (classifications s)) rules
       @ fired l signals rules"
  by (simp add: fired_def)

lemma map_of_for_banked_signals:
  "map_of (for_banked_signals d signals rules) l =
     (if fired l signals rules = [] then map_of d l
      else Some (rules_under d l @ fired l signals rules))"
proof (induction signals arbitrary: d)
  case Nil
  show ?case by (simp add: fired_def)
next
  case (Cons s signals)
  show ?case
    by (simp add: Cons.IH fired_Cons map_of_for_action_rules rules_under_for_action_rules)
qed

lemma map_of_get_actions_to_take:
  "map_of (get_actions_to_take mm rules) l =
     (if fired l (matching_banked_signals mm) rules = [] then None
      else Some (fired l (matching_banked_signals mm) rules))"
  by (simp add: get_actions_to_take_def remove_superseded_actions_def
      map_of_for_banked_signals rules_under_def)

lemma rules_under_get_actions_to_take:
  "rules_under (get_actions_to_take mm rules) l = fired l (matching_banked_signals mm) rules"
  by (simp add: rules_under_def map_of_get_actions_to_take)

lemma distinct_evaluate_pair:
  "distinct (map fst d) \<Longrightarrow> distinct (map fst (evaluate_pair d cls r))"
  by (simp add: evaluate_pair_def distinct_update split: option.splits)

lemma distinct_for_action_rules:
  "distinct (map fst d) \<Longrightarrow> distinct (map fst (for_action_rules d cls rules))"
  by (induction rules arbitrary: d) (simp_all add: distinct_evaluate_pair)

lemma distinct_for_banked_signals:
  "distinct (map fst d) \<Longrightarrow> distinct (map fst (for_banked_signals d signals rules))"
  by (induction signals arbitrary: d) (simp_all add: distinct_for_action_rules)

lemma distinct_get_actions_to_take: "distinct (map fst (get_actions_to_take mm rules))"
  by (simp add: get_actions_to_take_def remove_superseded_actions_def distinct_for_banked_signals)

lemma count_list_concat:
  "count_list (concat xss) x = sum_list (map (\<lambda>xs. count_list xs x) xss)"
  by (induction xss) simp_all

lemma count_list_filter:
  "count_list (filter P xs) x = (if P x then count_list xs x else 0)"
  by (induction xs) auto

lemma sum_list_if_const:
  "sum_list (map (\<lambda>s. if P s then (c::nat) else 0) xs) = c * length (filter P xs)"
  by (induction xs) simp_all

lemma count_list_fired:
  "count_list (fired (action_label r) signals rules) r =
     count_list rules r
       * length (filter (\<lambda>s. action_rule_applies_to_classifications r (classifications s)) signals)"
  by (simp add: fired_def count_list_concat comp_def count_list_filter sum_list_if_const)

lemma ex_applies:
  "action_rule_applies_to_classifications rule_C1_not_C3 (classifications signal_C1_C2)"
  "\<not> action_rule_applies_to_classifications rule_C1_not_C3 (classifications signal_C1_C3)"
  "action_rule_applies_to_classifications rule_C1_not_C3 (classifications signal_C1_only)"
  by (simp_all add: action_rule_applies_to_classifications_def issubset_def isdisjoint_def
      rule_C1_not_C3_def signal_C1_C2_def signal_C1_C3_def signal_C1_only_def)

lemma example_evaluation_two:
  "get_actions_to_take message_of_two_matches [rule_C1_not_C3]
     = [(''A'', [rule_C1_not_C3, rule_C1_not_C3])]"
  by (simp add: get_actions_to_take_def remove_superseded_actions_def
      message_of_two_matches_def evaluate_pair_def ex_applies)
     (simp add: rule_C1_not_C3_def)

text \<open>
  Claim C2. Every (signal, rule) pair is evaluated: the list that \<open>get_actions_to_take\<close> holds
  under a rule's action label is the list of the rules of that label that fire, signal by
  signal and rule by rule, with nothing left out and nothing merged. So a rule occurs in it
  once for every signal that satisfies it (times the number of its occurrences in the list of
  rules): two signals that satisfy the same rule give it twice.
\<close>

theorem satisfying_signals_each_contribute_rule:
  "rules_under (get_actions_to_take mm rules) (action_label r)
     = fired (action_label r) (matching_banked_signals mm) rules
   \<and> count_list (rules_under (get_actions_to_take mm rules) (action_label r)) r
     = count_list rules r
        * length (filter (\<lambda>s. action_rule_applies_to_classifications r (classifications s))
            (matching_banked_signals mm))"
  by (simp add: rules_under_get_actions_to_take count_list_fired)

theorem satisfying_signals_each_contribute_rule_witness:
  "get_actions_to_take message_of_two_matches [rule_C1_not_C3]
     = [(''A'', [rule_C1_not_C3, rule_C1_not_C3])]
   \<and> count_list (rules_under (get_actions_to_take message_of_two_matches [rule_C1_not_C3])
        (action_label rule_C1_not_C3)) rule_C1_not_C3 = 2"
proof -
  note example_evaluation_two
  moreover have "count_list (rules_under (get_actions_to_take message_of_two_matches [rule_C1_not_C3])
        (action_label rule_C1_not_C3)) rule_C1_not_C3
      = count_list [rule_C1_not_C3] rule_C1_not_C3
        * length (filter (\<lambda>s. action_rule_applies_to_classifications rule_C1_not_C3 (classifications s))
            (matching_banked_signals message_of_two_matches))"
    by (rule conjunct2 [OF satisfying_signals_each_contribute_rule])
  moreover have "count_list [rule_C1_not_C3] rule_C1_not_C3
        * length (filter (\<lambda>s. action_rule_applies_to_classifications rule_C1_not_C3 (classifications s))
            (matching_banked_signals message_of_two_matches)) = 2"
    by (simp add: message_of_two_matches_def ex_applies)
  ultimately show ?thesis by simp
qed

text \<open>
  Claim C10. Every entry of the dictionary that \<open>get_actions_to_take\<close> returns has a
  non-empty list of rules, and every rule in the list under a label has that label as its
  \<open>action_label\<close>.
\<close>

theorem entries_nonempty_and_labelled:
  assumes "(l, rs) \<in> set (get_actions_to_take mm rules)"
  shows "rs \<noteq> [] \<and> (\<forall>r\<in>set rs. action_label r = l)"
proof -
  from assms have "map_of (get_actions_to_take mm rules) l = Some rs"
    by (simp add: distinct_get_actions_to_take)
  then have rs: "rs = fired l (matching_banked_signals mm) rules" and ne: "rs \<noteq> []"
    by (auto simp: map_of_get_actions_to_take split: if_splits)
  have "\<forall>r\<in>set (fired l (matching_banked_signals mm) rules). action_label r = l"
    by (auto simp: fired_def)
  with rs ne show ?thesis by simp
qed

theorem entries_nonempty_and_labelled_witness:
  "(''A'', [rule_C1_not_C3, rule_C1_not_C3])
     \<in> set (get_actions_to_take message_of_two_matches [rule_C1_not_C3])
   \<and> [rule_C1_not_C3, rule_C1_not_C3] \<noteq> []
   \<and> action_label rule_C1_not_C3 = ''A''"
proof -
  have h: "(''A'', [rule_C1_not_C3, rule_C1_not_C3])
     \<in> set (get_actions_to_take message_of_two_matches [rule_C1_not_C3])"
    by (simp add: example_evaluation_two)
  show ?thesis
    using h entries_nonempty_and_labelled [OF h] by simp
qed

section \<open>Two evaluations in sequence\<close>

lemma dict_contents_cells:
  "list_all (\<lambda>p. p < length h) (map snd d) \<Longrightarrow> dict_contents d h = Some (cells d h)"
  by (induction d) (auto simp: cells_def)

lemma map_of_cells: "map_of (cells d h) l = map_option (\<lambda>p. h ! p) (map_of d l)"
  by (induction d) (auto simp: cells_def)

lemma cells_untouched:
  "p \<notin> snd ` set d \<Longrightarrow> cells d (h[p := v]) = cells d h"
  by (induction d) (auto simp: cells_def)

lemma cells_update:
  "distinct (map snd d) \<Longrightarrow> list_all (\<lambda>p. p < length h) (map snd d) \<Longrightarrow> map_of d l = Some p
     \<Longrightarrow> cells d (h[p := v]) = AList.update l v (cells d h)"
proof (induction d)
  case Nil
  then show ?case by simp
next
  case (Cons e d)
  obtain k q where e: "e = (k, q)" by (cases e)
  show ?case
  proof (cases "k = l")
    case True
    with Cons.prems e have "q = p" "p \<notin> snd ` set d" "p < length h" by auto
    with True e show ?thesis
      using cells_untouched [of p d h v] by (simp add: cells_def)
  next
    case False
    with Cons.prems e have later: "map_of d l = Some p" by simp
    then have "p \<in> snd ` set d" by (metis image_eqI map_of_SomeD snd_conv)
    with Cons.prems e have "q \<noteq> p" by auto
    with False e Cons.IH later Cons.prems show ?thesis by (simp add: cells_def)
  qed
qed

lemma update_absent: "map_of d l = None \<Longrightarrow> AList.update l v d = d @ [(l, v)]"
  by (induction d) (auto split: if_splits)

lemma cells_extend:
  "list_all (\<lambda>p. p < length h) (map snd d) \<Longrightarrow> cells d (h @ x) = cells d h"
  by (induction d) (auto simp: cells_def nth_append)

lemma cells_take:
  "list_all (\<lambda>p. p < n) (map snd d) \<Longrightarrow> take n h' = take n h \<Longrightarrow> cells d h' = cells d h"
proof (induction d)
  case Nil
  show ?case by (simp add: cells_def)
next
  case (Cons e d)
  obtain k q where e: "e = (k, q)" by (cases e)
  with Cons.prems have "q < n" by simp
  then have "h' ! q = take n h' ! q" "h ! q = take n h ! q" by simp_all
  with Cons.prems have "h' ! q = h ! q" by simp
  with Cons e show ?case by (simp add: cells_def)
qed

lemma evaluate_pair_in_heap_step:
  assumes inv: "fresh_from n d h"
  shows "\<exists>d' h'. evaluate_pair_in_heap (d, h) cls r = Some (d', h')
     \<and> fresh_from n d' h' \<and> take n h' = take n h
     \<and> cells d' h' = evaluate_pair (cells d h) cls r"
proof (cases "action_rule_applies_to_classifications r cls")
  case False
  with inv show ?thesis by (simp add: evaluate_pair_in_heap_def evaluate_pair_def)
next
  case True
  from inv have n: "n \<le> length h" and dist: "distinct (map snd d)"
    and range: "list_all (\<lambda>p. n \<le> p \<and> p < length h) (map snd d)"
    by (simp_all add: fresh_from_def)
  from range have below: "list_all (\<lambda>p. p < length h) (map snd d)"
    by (simp add: list_all_iff)
  show ?thesis
  proof (cases "map_of d (action_label r)")
    case None
    have new: "length h \<notin> snd ` set d" using below by (auto simp: list_all_iff)
    have "cells (d @ [(action_label r, length h)]) (h @ [[r]]) = cells d h @ [(action_label r, [r])]"
      using cells_extend [OF below, of "[[r]]"] by (simp add: cells_def)
    moreover have "evaluate_pair (cells d h) cls r = cells d h @ [(action_label r, [r])]"
      using True None by (simp add: evaluate_pair_def map_of_cells update_absent)
    moreover have "fresh_from n (d @ [(action_label r, length h)]) (h @ [[r]])"
      using n dist range new by (auto simp: fresh_from_def list_all_iff)
    ultimately show ?thesis
      using True None n by (simp add: evaluate_pair_in_heap_def update_absent)
  next
    case (Some p)
    then have "p \<in> snd ` set d" by (metis image_eqI map_of_SomeD snd_conv)
    with range have p: "n \<le> p" "p < length h" by (auto simp: list_all_iff)
    have "cells d (h[p := h ! p @ [r]]) = evaluate_pair (cells d h) cls r"
      using True Some cells_update [OF dist below Some]
      by (simp add: evaluate_pair_def map_of_cells)
    moreover have "fresh_from n d (h[p := h ! p @ [r]])"
      using inv by (simp add: fresh_from_def)
    ultimately show ?thesis
      using True Some p by (simp add: evaluate_pair_in_heap_def)
  qed
qed

lemma nth_of_take_eq: "take n h' = take n h \<Longrightarrow> a < n \<Longrightarrow> h' ! a = h ! a"
  by (metis nth_take)

lemma for_action_rules_in_heap_runs:
  assumes a: "a < n"
  shows "fresh_from n d h \<Longrightarrow>
     \<exists>d' h'. for_action_rules_in_heap i a cls (d, h) = Some (d', h')
     \<and> fresh_from n d' h' \<and> take n h' = take n h
     \<and> cells d' h' = for_action_rules (cells d h) cls (drop i (h ! a))"
proof (induction "length (h ! a) - i" arbitrary: i d h)
  case 0
  then have "a < length h" using a by (simp add: fresh_from_def)
  with 0 show ?case by (simp add: for_action_rules_in_heap.simps)
next
  case (Suc k)
  from Suc.prems a have ah: "a < length h" by (simp add: fresh_from_def)
  from Suc.hyps(2) have i: "i < length (h ! a)" by simp
  from evaluate_pair_in_heap_step [OF Suc.prems, of cls "h ! a ! i"]
  obtain d1 h1 where step: "evaluate_pair_in_heap (d, h) cls (h ! a ! i) = Some (d1, h1)"
    and inv1: "fresh_from n d1 h1" and take1: "take n h1 = take n h"
    and cells1: "cells d1 h1 = evaluate_pair (cells d h) cls (h ! a ! i)"
    by blast
  have same: "h1 ! a = h ! a" by (rule nth_of_take_eq [OF take1 a])
  from Suc.hyps(2) same have "k = length (h1 ! a) - Suc i" by simp
  from Suc.hyps(1) [OF this inv1]
  obtain d2 h2 where rest: "for_action_rules_in_heap (Suc i) a cls (d1, h1) = Some (d2, h2)"
    and inv2: "fresh_from n d2 h2" and take2: "take n h2 = take n h1"
    and cells2: "cells d2 h2 = for_action_rules (cells d1 h1) cls (drop (Suc i) (h1 ! a))"
    by blast
  have "for_action_rules_in_heap i a cls (d, h) = Some (d2, h2)"
    using ah i step rest by (subst for_action_rules_in_heap.simps) simp
  moreover have "cells d2 h2 = for_action_rules (cells d h) cls (drop i (h ! a))"
    using cells2 cells1 same Cons_nth_drop_Suc [OF i, symmetric] by simp
  ultimately show ?case using inv2 take1 take2 by simp
qed

lemma for_banked_signals_in_heap_runs:
  assumes a: "a < n"
  shows "fresh_from n d h \<Longrightarrow>
     \<exists>d' h'. for_banked_signals_in_heap ss a (d, h) = Some (d', h')
     \<and> fresh_from n d' h' \<and> take n h' = take n h
     \<and> cells d' h' = for_banked_signals (cells d h) ss (h ! a)"
proof (induction ss arbitrary: d h)
  case Nil
  then show ?case by simp
next
  case (Cons s ss)
  from for_action_rules_in_heap_runs [OF a Cons.prems, of 0 "classifications s"]
  obtain d1 h1 where inner: "for_action_rules_in_heap 0 a (classifications s) (d, h) = Some (d1, h1)"
    and inv1: "fresh_from n d1 h1" and take1: "take n h1 = take n h"
    and cells1: "cells d1 h1 = for_action_rules (cells d h) (classifications s) (h ! a)"
    by auto
  have same: "h1 ! a = h ! a" by (rule nth_of_take_eq [OF take1 a])
  from Cons.IH [OF inv1]
  obtain d2 h2 where rest: "for_banked_signals_in_heap ss a (d1, h1) = Some (d2, h2)"
    and inv2: "fresh_from n d2 h2" and take2: "take n h2 = take n h1"
    and cells2: "cells d2 h2 = for_banked_signals (cells d1 h1) ss (h1 ! a)"
    by blast
  show ?case using inner rest inv2 take1 take2 cells1 cells2 same by simp
qed

lemma get_actions_to_take_in_heap_runs:
  assumes a: "a < length h"
  shows "\<exists>d' h'. get_actions_to_take_in_heap mm a h = Some (d', h')
     \<and> fresh_from (length h) d' h' \<and> take (length h) h' = h
     \<and> cells d' h' = get_actions_to_take mm (h ! a)"
proof -
  have start: "fresh_from (length h) [] h" by (simp add: fresh_from_def)
  from for_banked_signals_in_heap_runs [OF a start, of "matching_banked_signals mm"]
  show ?thesis
    by (auto simp: get_actions_to_take_in_heap_def remove_superseded_actions_in_heap_def
        get_actions_to_take_def remove_superseded_actions_def cells_def)
qed

lemma fresh_from_below:
  "fresh_from n d h \<Longrightarrow> list_all (\<lambda>p. p < length h) (map snd d)"
  by (simp add: fresh_from_def list_all_iff)

lemma example_evaluation_in_heap:
  "get_actions_to_take_in_heap message_of_two_matches 0 [[rule_C1_not_C3]]
     = Some ([(''A'', 1)], [[rule_C1_not_C3], [rule_C1_not_C3, rule_C1_not_C3]])"
  "get_actions_to_take_in_heap message_of_two_matches 0
       [[rule_C1_not_C3], [rule_C1_not_C3, rule_C1_not_C3]]
     = Some ([(''A'', 2)],
         [[rule_C1_not_C3], [rule_C1_not_C3, rule_C1_not_C3],
          [rule_C1_not_C3, rule_C1_not_C3]])"
  by (simp_all add: get_actions_to_take_in_heap_def remove_superseded_actions_in_heap_def
      message_of_two_matches_def for_action_rules_in_heap.simps evaluate_pair_in_heap_def
      ex_applies) (simp_all add: rule_C1_not_C3_def)

text \<open>
  Claim C9. Evaluating \<open>get_actions_to_take\<close> twice on the same inputs, the second time in
  the store that the first evaluation left, yields identical maps. For every heap in which
  the rule list is an object, both evaluations return; both dictionaries read as the same
  action-label-to-rules map, which is a function of the match message and the rule list
  alone and of nothing else in the heap; the second evaluation does not change what the
  first one returned; and every object that existed before is as it was, so neither
  evaluation leaves anything behind for the next.
\<close>

theorem evaluating_twice_yields_identical_maps:
  assumes "a < length h"
  shows "\<exists>d1 h1 d2 h2.
       get_actions_to_take_in_heap mm a h = Some (d1, h1)
     \<and> get_actions_to_take_in_heap mm a h1 = Some (d2, h2)
     \<and> dict_contents d1 h1 = Some (get_actions_to_take mm (h ! a))
     \<and> dict_contents d2 h2 = Some (get_actions_to_take mm (h ! a))
     \<and> dict_contents d1 h2 = Some (get_actions_to_take mm (h ! a))
     \<and> dict_contents d2 h2 = dict_contents d1 h1
     \<and> take (length h) h2 = h"
proof -
  from get_actions_to_take_in_heap_runs [OF assms, of mm]
  obtain d1 h1 where run1: "get_actions_to_take_in_heap mm a h = Some (d1, h1)"
    and inv1: "fresh_from (length h) d1 h1" and take1: "take (length h) h1 = h"
    and cells1: "cells d1 h1 = get_actions_to_take mm (h ! a)"
    by blast
  from inv1 have len: "length h \<le> length h1" by (simp add: fresh_from_def)
  with assms have a1: "a < length h1" by simp
  have same: "h1 ! a = h ! a" using take1 assms by (metis nth_take)
  from get_actions_to_take_in_heap_runs [OF a1, of mm]
  obtain d2 h2 where run2: "get_actions_to_take_in_heap mm a h1 = Some (d2, h2)"
    and inv2: "fresh_from (length h1) d2 h2" and take2: "take (length h1) h2 = h1"
    and cells2: "cells d2 h2 = get_actions_to_take mm (h1 ! a)"
    by blast
  have below1: "list_all (\<lambda>p. p < length h1) (map snd d1)" by (rule fresh_from_below [OF inv1])
  have "take (length h1) h2 = take (length h1) h1" using take2 by simp
  from cells_take [OF below1 this] have kept: "cells d1 h2 = cells d1 h1" .
  from inv2 have len2: "length h1 \<le> length h2" by (simp add: fresh_from_def)
  have below12: "list_all (\<lambda>p. p < length h2) (map snd d1)"
    using below1 len2 by (auto simp: list_all_iff)
  have "take (length h) h2 = take (length h) (take (length h1) h2)"
    using len by (simp add: min_def)
  then have frame: "take (length h) h2 = h" using take2 take1 by simp
  show ?thesis
    using run1 run2 cells1 cells2 same kept frame
      dict_contents_cells [OF below1] dict_contents_cells [OF below12]
      dict_contents_cells [OF fresh_from_below [OF inv2]]
    by simp
qed

theorem evaluating_twice_yields_identical_maps_witness:
  "0 < length [[rule_C1_not_C3]]
   \<and> get_actions_to_take_in_heap message_of_two_matches 0 [[rule_C1_not_C3]]
       = Some ([(''A'', 1)], [[rule_C1_not_C3], [rule_C1_not_C3, rule_C1_not_C3]])
   \<and> get_actions_to_take_in_heap message_of_two_matches 0
         [[rule_C1_not_C3], [rule_C1_not_C3, rule_C1_not_C3]]
       = Some ([(''A'', 2)],
           [[rule_C1_not_C3], [rule_C1_not_C3, rule_C1_not_C3],
            [rule_C1_not_C3, rule_C1_not_C3]])
   \<and> dict_contents [(''A'', 1)] [[rule_C1_not_C3], [rule_C1_not_C3, rule_C1_not_C3]]
       = Some [(''A'', [rule_C1_not_C3, rule_C1_not_C3])]
   \<and> dict_contents [(''A'', 2)]
         [[rule_C1_not_C3], [rule_C1_not_C3, rule_C1_not_C3],
          [rule_C1_not_C3, rule_C1_not_C3]]
       = Some [(''A'', [rule_C1_not_C3, rule_C1_not_C3])]
   \<and> dict_contents [(''A'', 1)]
         [[rule_C1_not_C3], [rule_C1_not_C3, rule_C1_not_C3],
          [rule_C1_not_C3, rule_C1_not_C3]]
       = Some [(''A'', [rule_C1_not_C3, rule_C1_not_C3])]"
proof -
  have h: "0 < length [[rule_C1_not_C3]]" by simp
  from evaluating_twice_yields_identical_maps [OF h, of message_of_two_matches]
  obtain d1 h1 d2 h2 where
    run1: "get_actions_to_take_in_heap message_of_two_matches 0 [[rule_C1_not_C3]] = Some (d1, h1)"
    and run2: "get_actions_to_take_in_heap message_of_two_matches 0 h1 = Some (d2, h2)"
    and c1: "dict_contents d1 h1
       = Some (get_actions_to_take message_of_two_matches ([[rule_C1_not_C3]] ! 0))"
    and c2: "dict_contents d2 h2
       = Some (get_actions_to_take message_of_two_matches ([[rule_C1_not_C3]] ! 0))"
    and c3: "dict_contents d1 h2
       = Some (get_actions_to_take message_of_two_matches ([[rule_C1_not_C3]] ! 0))"
    by blast
  from run1 have first: "d1 = [(''A'', 1)]"
    "h1 = [[rule_C1_not_C3], [rule_C1_not_C3, rule_C1_not_C3]]"
    by (simp_all add: example_evaluation_in_heap(1))
  from run2 have second: "d2 = [(''A'', 2)]"
    "h2 = [[rule_C1_not_C3], [rule_C1_not_C3, rule_C1_not_C3],
           [rule_C1_not_C3, rule_C1_not_C3]]"
    unfolding first by (simp_all add: example_evaluation_in_heap(2))
  have pure: "get_actions_to_take message_of_two_matches ([[rule_C1_not_C3]] ! 0)
      = [(''A'', [rule_C1_not_C3, rule_C1_not_C3])]"
    by (simp add: example_evaluation_two)
  from c1 c2 c3 show ?thesis
    unfolding first second pure
    by (simp only: example_evaluation_in_heap h simp_thms)
qed

section \<open>Supersession\<close>

text \<open>
  Claim C3, as stated, fails: \<open>remove_superseded_actions\<close> is the identity (its docstring
  starts with "TODO implement"), takes no catalog and never reads \<open>get_actions\<close>. With the
  labels \<open>A\<close> and \<open>B\<close> both triggered, the resolved dictionary still has both keys, whatever
  priorities and \<open>superseded_by\<close> lists a catalog gives them.
\<close>

theorem supersession_keeps_B_counterexample:
  "map fst (remove_superseded_actions triggered_A_and_B) = [''A'', ''B'']"
  by (simp add: remove_superseded_actions_def triggered_A_and_B_def)

text \<open>
  Claim C3, amended. Whenever two action labels are both triggered, the dictionary that
  \<open>remove_superseded_actions\<close> returns is the triggered one, and holds both labels with
  their rule lists.
\<close>

theorem supersession_keeps_both_labels:
  assumes "map_of d a = Some ra" and "map_of d b = Some rb"
  shows "remove_superseded_actions d = d
     \<and> map_of (remove_superseded_actions d) a = Some ra
     \<and> map_of (remove_superseded_actions d) b = Some rb"
  using assms by (simp add: remove_superseded_actions_def)

theorem supersession_keeps_both_labels_witness:
  "map_of triggered_A_and_B ''A'' = Some [rule_C1_not_C3]
   \<and> map_of triggered_A_and_B ''B'' = Some [rule_for_B]
   \<and> map_of (remove_superseded_actions triggered_A_and_B) ''A'' = Some [rule_C1_not_C3]
   \<and> map_of (remove_superseded_actions triggered_A_and_B) ''B'' = Some [rule_for_B]"
proof -
  have a: "map_of triggered_A_and_B ''A'' = Some [rule_C1_not_C3]"
    by (simp add: triggered_A_and_B_def)
  have b: "map_of triggered_A_and_B ''B'' = Some [rule_for_B]"
    by (simp add: triggered_A_and_B_def)
  show ?thesis
    using a b supersession_keeps_both_labels [OF a b] by blast
qed

text \<open>
  Claim C7. The dictionary that \<open>remove_superseded_actions\<close> returns is within its input:
  every entry of the output is an entry of the input, so a label of the output had the same
  rule list in the input; and a triggered label for which \<open>get_actions\<close> holds no \<open>Action\<close>
  is still there, with its rule list.
\<close>

theorem resolved_map_within_triggered:
  "set (remove_superseded_actions d) \<subseteq> set d
   \<and> (\<forall>l rs. map_of (remove_superseded_actions d) l = Some rs \<longrightarrow> map_of d l = Some rs)
   \<and> (\<forall>l rs. l \<notin> a_action_label ` set get_actions \<longrightarrow> map_of d l = Some rs
         \<longrightarrow> map_of (remove_superseded_actions d) l = Some rs)"
  by (simp add: remove_superseded_actions_def)

theorem resolved_map_within_triggered_witness:
  "''B'' \<notin> a_action_label ` set get_actions
   \<and> map_of triggered_A_and_B ''B'' = Some [rule_for_B]
   \<and> map_of (remove_superseded_actions triggered_A_and_B) ''B'' = Some [rule_for_B]
   \<and> set (remove_superseded_actions triggered_A_and_B) \<subseteq> set triggered_A_and_B"
proof -
  have n: "''B'' \<notin> a_action_label ` set get_actions"
    by (simp add: get_actions_def)
  have b: "map_of triggered_A_and_B ''B'' = Some [rule_for_B]"
    by (simp add: triggered_A_and_B_def)
  show ?thesis
    using n b resolved_map_within_triggered [of triggered_A_and_B] by blast
qed

section \<open>The handler on a batch\<close>

lemma send_action_messages_accepted:
  assumes "set ls \<subseteq> fst ` set d"
    and "\<forall>l\<in>set ls. sqs_client_send_message env
           \<lparr>QueueUrl = actions_queue_url cfg,
            MessageBody = ActionBody \<lparr>am_match_message = mm, am_action_label = l,
              am_action_rules = rules_under d l\<rparr>\<rparr> = None"
  shows "send_action_messages env cfg mm d ls sent =
       (sent @ map (\<lambda>l. \<lparr>QueueUrl = actions_queue_url cfg,
                      MessageBody = ActionBody \<lparr>am_match_message = mm, am_action_label = l,
                        am_action_rules = rules_under d l\<rparr>\<rparr>) ls, Inr ())"
  using assms
proof (induction ls arbitrary: sent)
  case Nil
  show ?case by simp
next
  case (Cons l ls)
  from Cons.prems(1) have "l \<in> fst ` set d" by simp
  then obtain rs where rs: "map_of d l = Some rs"
    by (metis domD dom_map_of_conv_image_fst)
  then have under: "rules_under d l = rs" by (simp add: rules_under_def)
  from Cons.prems have rest: "set ls \<subseteq> fst ` set d"
    "\<forall>l\<in>set ls. sqs_client_send_message env
           \<lparr>QueueUrl = actions_queue_url cfg,
            MessageBody = ActionBody \<lparr>am_match_message = mm, am_action_label = l,
              am_action_rules = rules_under d l\<rparr>\<rparr> = None"
    by simp_all
  from Cons.prems(2) under have accepted: "sqs_client_send_message env
           \<lparr>QueueUrl = actions_queue_url cfg,
            MessageBody = ActionBody \<lparr>am_match_message = mm, am_action_label = l,
              am_action_rules = rs\<rparr>\<rparr> = None"
    by auto
  show ?case
    using Cons.IH [OF rest] rs under accepted
    by (simp add: from_match_message_action_label_and_action_rules_def)
qed

lemma rules_under_entry:
  "distinct (map fst d) \<Longrightarrow> (l, rs) \<in> set d \<Longrightarrow> rules_under d l = rs"
  by (simp add: rules_under_def)

lemma process_record_decoded:
  assumes dec: "decode env (body r) = Inr mm"
    and rules: "ActionRule_get_all env = Inr rules"
    and sends: "\<forall>m\<in>set (messages_of cfg rules mm). sqs_client_send_message env m = None"
  shows "process_record env cfg r sent = (sent @ messages_of cfg rules mm, Inr ())"
proof -
  let ?d = "get_actions_to_take mm rules"
  let ?actions = "map (\<lambda>l. \<lparr>QueueUrl = actions_queue_url cfg,
                      MessageBody = ActionBody \<lparr>am_match_message = mm, am_action_label = l,
                        am_action_rules = rules_under ?d l\<rparr>\<rparr>) (map fst ?d)"
  let ?reaction = "\<lparr>QueueUrl = reactions_queue_url cfg,
         MessageBody = ReactionBody \<lparr>rm_match_message = mm,
           rm_reaction_label = ''SAW_THIS_TOO''\<rparr>\<rparr>"
  have split: "messages_of cfg rules mm = ?actions @ [?reaction]"
    using rules_under_entry [OF distinct_get_actions_to_take [of mm rules]]
    by (auto simp: messages_of_def)
  have sub: "set (map fst ?d) \<subseteq> fst ` set ?d" by simp
  have acc: "\<forall>l\<in>set (map fst ?d). sqs_client_send_message env
           \<lparr>QueueUrl = actions_queue_url cfg,
            MessageBody = ActionBody \<lparr>am_match_message = mm, am_action_label = l,
              am_action_rules = rules_under ?d l\<rparr>\<rparr> = None"
    using sends unfolding split by auto
  have reaction: "sqs_client_send_message env ?reaction = None"
    using sends unfolding split by simp
  have actions: "send_action_messages env cfg mm ?d (map fst ?d) sent = (sent @ ?actions, Inr ())"
    by (rule send_action_messages_accepted [OF sub acc])
  show ?thesis
    unfolding split
    by (simp add: process_record_def dec get_action_rules_def rules Let_def actions
        threat_exchange_reacting_is_enabled_def get_threat_exchange_reaction_labels_def
        from_match_message_and_label_def reaction)
qed

lemma process_record_undecoded:
  "decode env (body r) = Inl e \<Longrightarrow> process_record env cfg r sent = (sent, Inl e)"
  by (simp add: process_record_def)

lemma for_records_stops_at_failure:
  assumes rules: "ActionRule_get_all env = Inr rules"
    and bad: "decode env (body bad) = Inl e"
  shows "map (\<lambda>r. decode env (body r)) pre = map Inr mms
     \<Longrightarrow> \<forall>m\<in>set (concat (map (messages_of cfg rules) mms)). sqs_client_send_message env m = None
     \<Longrightarrow> for_records env cfg (pre @ bad # post) sent
           = (sent @ concat (map (messages_of cfg rules) mms), Inl e)
         \<and> for_records env cfg pre sent
           = (sent @ concat (map (messages_of cfg rules) mms), Inr ())"
proof (induction pre arbitrary: mms sent)
  case Nil
  then show ?case by (simp add: process_record_undecoded [OF bad])
next
  case (Cons r pre)
  from Cons.prems(1) obtain mm rest where mms: "mms = mm # rest" by (cases mms) auto
  with Cons.prems(1) have dec: "decode env (body r) = Inr mm"
    and pre: "map (\<lambda>r. decode env (body r)) pre = map Inr rest" by simp_all
  from Cons.prems(2) mms
  have here: "\<forall>m\<in>set (messages_of cfg rules mm). sqs_client_send_message env m = None"
    and later: "\<forall>m\<in>set (concat (map (messages_of cfg rules) rest)).
                  sqs_client_send_message env m = None"
    by simp_all
  show ?case
    using Cons.IH [OF pre later, of "sent @ messages_of cfg rules mm"]
    by (simp add: process_record_decoded [OF dec rules here] mms)
qed

lemma example_evaluation_one:
  "get_actions_to_take message_one [rule_C1_not_C3] = [(''A'', [rule_C1_not_C3])]"
  by (simp add: get_actions_to_take_def remove_superseded_actions_def message_one_def
      evaluate_pair_def ex_applies) (simp add: rule_C1_not_C3_def)

lemma example_messages_one:
  "messages_of config_example [rule_C1_not_C3] message_one =
     [\<lparr>QueueUrl = ''actions'',
        MessageBody = ActionBody \<lparr>am_match_message = message_one, am_action_label = ''A'',
          am_action_rules = [rule_C1_not_C3]\<rparr>\<rparr>,
       \<lparr>QueueUrl = ''reactions'',
        MessageBody = ReactionBody \<lparr>rm_match_message = message_one,
          rm_reaction_label = ''SAW_THIS_TOO''\<rparr>\<rparr>]"
  by (simp add: messages_of_def example_evaluation_one config_example_def)

text \<open>
  Claim C4, as stated, fails: the loop of \<open>lambda_handler\<close> has no \<open>try\<close>, so the exception
  raised on a malformed body leaves the handler. On a batch of three records whose second
  body is malformed, with a configuration and rules that load and a queue that accepts
  every message, the messages of the first record are sent, the handler raises, and
  nothing is sent for the third record.
\<close>

theorem malformed_record_aborts_batch_counterexample:
  "lambda_handler environment_example batch_of_three =
     ([\<lparr>QueueUrl = ''actions'',
        MessageBody = ActionBody \<lparr>am_match_message = message_one, am_action_label = ''A'',
          am_action_rules = [rule_C1_not_C3]\<rparr>\<rparr>,
       \<lparr>QueueUrl = ''reactions'',
        MessageBody = ReactionBody \<lparr>rm_match_message = message_one,
          rm_reaction_label = ''SAW_THIS_TOO''\<rparr>\<rparr>],
      Inl JSONDecodeError)"
  by (simp add: lambda_handler_def batch_of_three_def process_record_def environment_example_def
      decode_example_def get_action_rules_def example_evaluation_one config_example_def
      queue_accepts_def from_match_message_action_label_and_action_rules_def
      threat_exchange_reacting_is_enabled_def get_threat_exchange_reaction_labels_def
      from_match_message_and_label_def)

text \<open>
  Claim C4, amended. When the configuration and the rules load, the records before a
  record whose body does not decode do decode, and the queue accepts their messages, the
  handler ends with the exception of that record: the messages sent are exactly those of
  the records before it (for each, one action message per resolved action label, then the
  reaction message), and the records after it are not processed. Without the failing
  record and what follows it, the same messages are sent and the handler completes.
\<close>

theorem failing_record_aborts_handler:
  assumes "ActionEvaluatorConfig_get env = Inr cfg"
    and "ActionRule_get_all env = Inr rules"
    and "map (\<lambda>r. decode env (body r)) pre = map Inr mms"
    and "\<forall>m\<in>set (concat (map (messages_of cfg rules) mms)). sqs_client_send_message env m = None"
    and "decode env (body bad) = Inl e"
  shows "lambda_handler env \<lparr>Records = pre @ bad # post\<rparr>
           = (concat (map (messages_of cfg rules) mms), Inl e)
     \<and> lambda_handler env \<lparr>Records = pre\<rparr>
           = (concat (map (messages_of cfg rules) mms),
              Inr [(''evaluation_completed'', ''true'')])"
  using for_records_stops_at_failure [OF assms(2) assms(5) assms(3) assms(4), of post "[]"]
  by (simp add: lambda_handler_def assms(1))

theorem failing_record_aborts_handler_witness:
  "ActionEvaluatorConfig_get environment_example = Inr config_example
   \<and> ActionRule_get_all environment_example = Inr [rule_C1_not_C3]
   \<and> map (\<lambda>r. decode environment_example (body r)) [\<lparr>body = ''one''\<rparr>] = map Inr [message_one]
   \<and> sqs_client_send_message environment_example
        \<lparr>QueueUrl = ''actions'',
         MessageBody = ActionBody \<lparr>am_match_message = message_one, am_action_label = ''A'',
           am_action_rules = [rule_C1_not_C3]\<rparr>\<rparr> = None
   \<and> sqs_client_send_message environment_example
        \<lparr>QueueUrl = ''reactions'',
         MessageBody = ReactionBody \<lparr>rm_match_message = message_one,
           rm_reaction_label = ''SAW_THIS_TOO''\<rparr>\<rparr> = None
   \<and> decode environment_example (body \<lparr>body = ''{''\<rparr>) = Inl JSONDecodeError
   \<and> lambda_handler environment_example
        \<lparr>Records = [\<lparr>body = ''one''\<rparr>] @ \<lparr>body = ''{''\<rparr> # [\<lparr>body = ''three''\<rparr>]\<rparr>
      = ([\<lparr>QueueUrl = ''actions'',
           MessageBody = ActionBody \<lparr>am_match_message = message_one, am_action_label = ''A'',
             am_action_rules = [rule_C1_not_C3]\<rparr>\<rparr>,
          \<lparr>QueueUrl = ''reactions'',
           MessageBody = ReactionBody \<lparr>rm_match_message = message_one,
             rm_reaction_label = ''SAW_THIS_TOO''\<rparr>\<rparr>],
         Inl JSONDecodeError)
   \<and> lambda_handler environment_example \<lparr>Records = [\<lparr>body = ''one''\<rparr>]\<rparr>
      = ([\<lparr>QueueUrl = ''actions'',
           MessageBody = ActionBody \<lparr>am_match_message = message_one, am_action_label = ''A'',
             am_action_rules = [rule_C1_not_C3]\<rparr>\<rparr>,
          \<lparr>QueueUrl = ''reactions'',
           MessageBody = ReactionBody \<lparr>rm_match_message = message_one,
             rm_reaction_label = ''SAW_THIS_TOO''\<rparr>\<rparr>],
         Inr [(''evaluation_completed'', ''true'')])"
proof -
  have cfg: "ActionEvaluatorConfig_get environment_example = Inr config_example"
    and rules: "ActionRule_get_all environment_example = Inr [rule_C1_not_C3]"
    and pre: "map (\<lambda>r. decode environment_example (body r)) [\<lparr>body = ''one''\<rparr>]
                = map Inr [message_one]"
    and bad: "decode environment_example (body \<lparr>body = ''{''\<rparr>) = Inl JSONDecodeError"
    by (simp_all add: environment_example_def decode_example_def)
  have accepts: "\<And>m. sqs_client_send_message environment_example m = None"
    by (simp add: environment_example_def queue_accepts_def)
  have sends: "\<forall>m\<in>set (concat (map (messages_of config_example [rule_C1_not_C3]) [message_one])).
      sqs_client_send_message environment_example m = None"
    by (simp add: accepts)
  show ?thesis
    using failing_record_aborts_handler [OF cfg rules pre sends bad, of "[\<lparr>body = ''three''\<rparr>]"]
      cfg rules pre bad
    by (simp add: example_messages_one accepts)
qed

section \<open>Performing an action\<close>

lemma post_put_one_request:
  assumes "p = WebhookPostActionPerformer n u \<or> p = WebhookPutActionPerformer n u"
  shows "fst (perform_action to_aws_json http p mm)
     = [\<lparr>http_method = (if p = WebhookPostActionPerformer n u then POST else PUT),
         http_url = u, http_data = Some (to_aws_json mm)\<rparr>]"
  using assms by (auto simp: perform_action_def call_def split: sum.splits)

lemma get_delete_no_request:
  assumes "p = WebhookGetActionPerformer n u \<or> p = WebhookDeleteActionPerformer n u"
  shows "perform_action to_aws_json http p mm = ([], Inl TypeError)"
  using assms by (auto simp: perform_action_def call_def)

text \<open>
  Claim C5, as stated, fails: \<open>perform_action\<close> drops the response of \<open>call\<close>, and \<open>requests\<close>
  does not raise on a status. A POST performer whose request is answered with status 500
  returns \<open>None\<close> as it does on any other response.
\<close>

theorem non_success_status_not_surfaced_counterexample:
  "perform_action to_aws_json_example (http_status 500)
     (WebhookPostActionPerformer ''Notify'' ''https://example.test/hook'') message_one
   = ([\<lparr>http_method = POST, http_url = ''https://example.test/hook'',
        http_data = Some ''k1:h1''\<rparr>], Inr ())"
  by (simp add: perform_action_def call_def http_status_def to_aws_json_example_def
      message_one_def)

text \<open>
  Claim C5, amended. For the POST and PUT performers, an exception that the HTTP call
  raises (a network error) is raised to the caller of \<open>perform_action\<close>, and whenever the
  HTTP call returns a response, of any status, \<open>perform_action\<close> returns \<open>None\<close>.
\<close>

theorem post_put_outcome:
  assumes "p = WebhookPostActionPerformer n u \<or> p = WebhookPutActionPerformer n u"
  shows "(http (call_request p (to_aws_json mm)) = Inl e
            \<longrightarrow> snd (perform_action to_aws_json http p mm) = Inl e)
     \<and> (http (call_request p (to_aws_json mm)) = Inr response
            \<longrightarrow> snd (perform_action to_aws_json http p mm) = Inr ())"
  using assms by (auto simp: perform_action_def call_def)

theorem post_put_outcome_witness:
  "http_down (call_request (WebhookPutActionPerformer ''Notify'' ''https://example.test/hook'')
       (to_aws_json_example message_one)) = Inl ConnectionError
   \<and> snd (perform_action to_aws_json_example http_down
       (WebhookPutActionPerformer ''Notify'' ''https://example.test/hook'') message_one)
      = Inl ConnectionError
   \<and> http_status 500
       (call_request (WebhookPostActionPerformer ''Notify'' ''https://example.test/hook'')
         (to_aws_json_example message_one)) = Inr \<lparr>status_code = 500\<rparr>
   \<and> snd (perform_action to_aws_json_example (http_status 500)
       (WebhookPostActionPerformer ''Notify'' ''https://example.test/hook'') message_one)
      = Inr ()"
proof -
  have down: "http_down
       (call_request (WebhookPutActionPerformer ''Notify'' ''https://example.test/hook'')
         (to_aws_json_example message_one)) = Inl ConnectionError"
    by (simp add: http_down_def)
  have answered: "http_status 500
       (call_request (WebhookPostActionPerformer ''Notify'' ''https://example.test/hook'')
         (to_aws_json_example message_one)) = Inr \<lparr>status_code = 500\<rparr>"
    by (simp add: http_status_def)
  show ?thesis
    using down answered
      post_put_outcome [of "WebhookPutActionPerformer ''Notify'' ''https://example.test/hook''"
        "''Notify''" "''https://example.test/hook''" http_down to_aws_json_example message_one
        ConnectionError]
      post_put_outcome [of "WebhookPostActionPerformer ''Notify'' ''https://example.test/hook''"
        "''Notify''" "''https://example.test/hook''" "http_status 500" to_aws_json_example
        message_one _ "\<lparr>status_code = 500\<rparr>"]
    by blast
qed

text \<open>
  Claim C8 holds for the POST and PUT performers (\<open>post_put_one_request\<close>) and fails on the
  code for the GET and DELETE performers: \<open>perform_action\<close> passes its argument by the keyword
  \<open>data\<close>, their \<open>call\<close> names its parameter \<open>_data\<close>, so the call raises \<open>TypeError\<close> and no
  request is made.
\<close>

theorem get_performer_makes_no_request:
  "perform_action to_aws_json_example (http_status 200)
     (WebhookGetActionPerformer ''Notify'' ''https://example.test/hook'') message_one
   = ([], Inl TypeError)"
  by (simp add: perform_action_def call_def)

end
